theory Spec2Isabelle
  imports Main "HOL-Library.Word"
begin

unbundle bit_operations_syntax

section \<open>Data model\<close>

text \<open>
  The two headers work on three kinds of text buffer: narrow strings (\<open>char\<close>), wide
  strings (\<open>wchar_t\<close>, 16 bits on the target platform) and the raw memory a
  \<open>const char*\<close> or \<open>const wchar_t*\<close> points to.

  \<^item> A \<open>std::string\<close> or \<open>std::wstring\<close> is the list of its elements; it may hold
    embedded zeros and carries no terminator.
  \<^item> A pointer argument is \<open>None\<close> for \<open>nullptr\<close> and \<open>Some mem\<close> otherwise, where
    \<open>mem\<close> lists the elements of the pointed-to object from the pointer onwards. Index
    \<open>i\<close> of \<open>mem\<close> is what \<open>str[i]\<close> reads; an index at or beyond \<open>length mem\<close> lies outside
    the object.
  \<^item> \<open>c_str\<close> is \<open>std::string::c_str()\<close>: the elements followed by one terminator.
\<close>

type_synonym byte = "8 word"
type_synonym wchar = "16 word"
type_synonym cstr = "byte list option"
type_synonym wcstr = "wchar list option"

definition c_str :: "'a::zero list \<Rightarrow> 'a list" where
  "c_str s = s @ [0]"

text \<open>The only failure the scan of \<open>U8StrLength\<close> can run into: a read outside the object.\<close>

datatype fault = ReadOutOfBounds

text \<open>
  \<open>static_cast<int>(str.size())\<close>: the size is narrowed to a 32-bit signed \<open>int\<close>.
\<close>

definition size_to_int :: "nat \<Rightarrow> int" where
  "size_to_int n = sint (of_nat n :: 32 word)"

text \<open>The code page identifiers of \<open>Windows.h\<close> that the header names.\<close>

definition CP_ACP :: nat where
  "CP_ACP = 0"

definition CP_UTF8 :: nat where
  "CP_UTF8 = 65001"

section \<open>Reference notions: UTF-8 and UTF-16\<close>

text \<open>
  What the claims compare the code with. Well-formed UTF-8 is the encoding of Unicode
  scalar values: the code points up to \<open>0x10FFFF\<close> without the surrogates.
\<close>

definition is_scalar_value :: "nat \<Rightarrow> bool" where
  "is_scalar_value cp = (cp < 0xD800 \<or> (0xE000 \<le> cp \<and> cp < 0x110000))"

definition utf8_encode :: "nat \<Rightarrow> byte list" where
  "utf8_encode cp =
     (if cp < 0x80 then [of_nat cp]
      else if cp < 0x800 then
        [of_nat (0xC0 + cp div 0x40), of_nat (0x80 + cp mod 0x40)]
      else if cp < 0x10000 then
        [of_nat (0xE0 + cp div 0x1000), of_nat (0x80 + cp div 0x40 mod 0x40),
         of_nat (0x80 + cp mod 0x40)]
      else
        [of_nat (0xF0 + cp div 0x40000), of_nat (0x80 + cp div 0x1000 mod 0x40),
         of_nat (0x80 + cp div 0x40 mod 0x40), of_nat (0x80 + cp mod 0x40)])"

definition utf8_string :: "nat list \<Rightarrow> byte list" where
  "utf8_string cps = concat (map utf8_encode cps)"

text \<open>UTF-16: one code unit below \<open>0x10000\<close>, a surrogate pair from there on.\<close>

definition utf16_encode :: "nat \<Rightarrow> wchar list" where
  "utf16_encode cp =
     (if cp < 0x10000 then [of_nat cp]
      else
        [of_nat (0xD800 + (cp - 0x10000) div 0x400),
         of_nat (0xDC00 + (cp - 0x10000) mod 0x400)])"

definition utf16_string :: "nat list \<Rightarrow> wchar list" where
  "utf16_string cps = concat (map utf16_encode cps)"

text \<open>
  Reading the two forms back. A continuation byte is \<open>10xxxxxx\<close> and carries six bits.
  The readers accept well-formed text only: no overlong form, no surrogate, nothing
  above \<open>0x10FFFF\<close>, no sequence cut short.
\<close>

definition continuation :: "byte \<Rightarrow> bool" where
  "continuation b = (0x80 \<le> unat b \<and> unat b < 0xC0)"

definition payload :: "byte \<Rightarrow> nat" where
  "payload b = unat b - 0x80"

fun utf8_decode :: "byte list \<Rightarrow> nat list option" where
  "utf8_decode [] = Some []"
| "utf8_decode (b # bs) =
     (if unat b < 0x80 then map_option ((#) (unat b)) (utf8_decode bs)
      else if unat b < 0xC0 then None
      else if unat b < 0xE0 then
        (case bs of
           b1 # bs1 \<Rightarrow>
             (let cp = (unat b - 0xC0) * 0x40 + payload b1
              in if continuation b1 \<and> 0x80 \<le> cp
                 then map_option ((#) cp) (utf8_decode bs1) else None)
         | _ \<Rightarrow> None)
      else if unat b < 0xF0 then
        (case bs of
           b1 # b2 # bs2 \<Rightarrow>
             (let cp = ((unat b - 0xE0) * 0x40 + payload b1) * 0x40 + payload b2
              in if continuation b1 \<and> continuation b2 \<and> 0x800 \<le> cp \<and> is_scalar_value cp
                 then map_option ((#) cp) (utf8_decode bs2) else None)
         | _ \<Rightarrow> None)
      else if unat b < 0xF8 then
        (case bs of
           b1 # b2 # b3 # bs3 \<Rightarrow>
             (let cp = (((unat b - 0xF0) * 0x40 + payload b1) * 0x40 + payload b2) * 0x40
                    + payload b3
              in if continuation b1 \<and> continuation b2 \<and> continuation b3
                    \<and> 0x10000 \<le> cp \<and> cp < 0x110000
                 then map_option ((#) cp) (utf8_decode bs3) else None)
         | _ \<Rightarrow> None)
      else None)"

fun utf16_decode :: "wchar list \<Rightarrow> nat list option" where
  "utf16_decode [] = Some []"
| "utf16_decode (u # us) =
     (if unat u < 0xD800 \<or> 0xE000 \<le> unat u then map_option ((#) (unat u)) (utf16_decode us)
      else if unat u < 0xDC00 then
        (case us of
           u1 # us1 \<Rightarrow>
             (if 0xDC00 \<le> unat u1 \<and> unat u1 < 0xE000
              then map_option ((#) (0x10000 + (unat u - 0xD800) * 0x400 + (unat u1 - 0xDC00)))
                     (utf16_decode us1)
              else None)
         | _ \<Rightarrow> None)
      else None)"

text \<open>
  The width a lead byte declares, read off its high bits as the UTF-8 format gives them:
  \<open>0xxxxxxx\<close>, \<open>110xxxxx\<close>, \<open>1110xxxx\<close>, \<open>11110xxx\<close>.
\<close>

definition lead_width :: "byte \<Rightarrow> nat option" where
  "lead_width c =
     (if c AND 0x80 = 0x00 then Some 1
      else if c AND 0xE0 = 0xC0 then Some 2
      else if c AND 0xF0 = 0xE0 then Some 3
      else if c AND 0xF8 = 0xF0 then Some 4
      else None)"

text \<open>
  The code point counter as the spec words it, on the bytes from the pointer onwards:
  classify the lead byte by its high bits, step over the declared width whatever the
  bytes in between are, count one per sequence, stop with the count reached at the
  terminator and at the first byte that matches no pattern. Running out of bytes is the
  fault.
\<close>

function utf8_codepoint_length :: "byte list \<Rightarrow> nat \<Rightarrow> fault + nat" where
  "utf8_codepoint_length [] count = Inl ReadOutOfBounds"
| "utf8_codepoint_length (c # rest) count =
     (if c = 0 then Inr count
      else
        (case lead_width c of
           None \<Rightarrow> Inr count
         | Some w \<Rightarrow> utf8_codepoint_length (drop (w - 1) rest) (count + 1)))"
  by pat_completeness auto
termination
  by (relation "measure (\<lambda>(bytes, count). length bytes)") auto

declare utf8_codepoint_length.simps [simp del]


section \<open>The conversion routines of the operating system\<close>

text \<open>
  \<open>MultiByteToWideChar\<close> and \<open>WideCharToMultiByte\<close> belong to the operating system, not
  to the repository. Their character tables are parameters of the model: a decoder maps a
  code page and a range of bytes to the code units of the same text, an encoder maps a
  code page and a range of code units to the bytes of the same text; \<open>None\<close> means that
  the routine fails, for instance because the code page is not installed. The routine's
  return value is the number of units written, and 0 is its failure report, so the empty
  list stands for the return value 0. The header always passes flags 0 and calls each
  routine twice with the same input, first to measure and then to fill a buffer of the
  measured size; both calls are one application of the parameter.
\<close>

type_synonym mb_decoder = "nat \<Rightarrow> byte list \<Rightarrow> wchar list option"
type_synonym wc_encoder = "nat \<Rightarrow> wchar list \<Rightarrow> byte list option"

text \<open>The text a negative length selects: everything before the first zero.\<close>

definition before_terminator :: "'a::zero list \<Rightarrow> 'a list" where
  "before_terminator mem = takeWhile (\<lambda>x. x \<noteq> 0) mem"

text \<open>
  Modelled from the spec: \<open>MultiByteToWideChar\<close> is absent from the sources. How it
  selects the bytes to decode follows the spec's description of \<open>narrow_to_wide\<close>: the
  routine decodes \<open>length\<close> bytes; the sentinel \<open>-1\<close> means up to and including the
  terminator, so that the text before the terminator is decoded and the terminator closes
  the output as one null unit; an empty input and a failed decoding yield zero units. The
  caller owes the routine a readable range: \<open>mem\<close> holds at least \<open>length\<close> bytes, or a
  terminator when the length is negative.
\<close>

definition MultiByteToWideChar :: "mb_decoder \<Rightarrow> nat \<Rightarrow> byte list \<Rightarrow> int \<Rightarrow> wchar list" where
  "MultiByteToWideChar dec cp mem cbMultiByte =
     (if cbMultiByte = 0 then []
      else if cbMultiByte < 0 then
        (case dec cp (before_terminator mem) of None \<Rightarrow> [] | Some units \<Rightarrow> units @ [0])
      else
        (case dec cp (take (nat cbMultiByte) mem) of None \<Rightarrow> [] | Some units \<Rightarrow> units))"

text \<open>
  Modelled from the spec: \<open>WideCharToMultiByte\<close> is absent from the sources. It selects
  the code units to encode as its inverse selects bytes (the spec's \<open>wide_to_narrow\<close>:
  empty input or zero-length result yields empty output).
\<close>

definition WideCharToMultiByte :: "wc_encoder \<Rightarrow> nat \<Rightarrow> wchar list \<Rightarrow> int \<Rightarrow> byte list" where
  "WideCharToMultiByte enc cp wmem cchWideChar =
     (if cchWideChar = 0 then []
      else if cchWideChar < 0 then
        (case enc cp (before_terminator wmem) of None \<Rightarrow> [] | Some bytes \<Rightarrow> bytes @ [0])
      else
        (case enc cp (take (nat cchWideChar) wmem) of None \<Rightarrow> [] | Some bytes \<Rightarrow> bytes))"

text \<open>
  Modelled from the spec: the tables of the UTF-8 code page are absent from the sources.
  The spec names the two encodings they convert between, UTF-8 and UTF-16: well-formed
  UTF-8 goes to the UTF-16 form of the same scalar values, and back. Ill-formed input is
  a failure here; no claim depends on what the routines make of it.
\<close>

definition utf8_to_wide :: "byte list \<Rightarrow> wchar list option" where
  "utf8_to_wide bytes = map_option utf16_string (utf8_decode bytes)"

definition wide_to_utf8 :: "wchar list \<Rightarrow> byte list option" where
  "wide_to_utf8 units = map_option utf8_string (utf16_decode units)"

text \<open>
  Modelled from the spec: the tables of the system code page are absent from the sources
  and differ from system to system. The spec calls \<open>wide_to_narrow\<close> lossy for
  characters the code page cannot represent; \<open>os_representable\<close> says that the wide
  string \<open>w\<close> is not of that kind: the routines encode it under the code page to the
  narrow string \<open>a\<close> and decode \<open>a\<close> back to \<open>w\<close>, and \<open>a\<close> is empty exactly when \<open>w\<close> is.
\<close>

definition os_representable ::
  "mb_decoder \<Rightarrow> wc_encoder \<Rightarrow> nat \<Rightarrow> wchar list \<Rightarrow> byte list \<Rightarrow> bool" where
  "os_representable dec enc cp w a =
     (enc cp w = Some a \<and> dec cp a = Some w \<and> (a = []) = (w = []))"

text \<open>
  An operating system for closed instances. Its UTF-8 code page is the one above, its
  system code page is ISO 8859-1 (byte \<open>b\<close> is code unit \<open>b\<close>, code units from \<open>0x100\<close> on
  cannot be represented), and no other code page is installed.
\<close>

definition sample_decode :: mb_decoder where
  "sample_decode cp bytes =
     (if cp = CP_UTF8 then utf8_to_wide bytes
      else if cp = CP_ACP then Some (map ucast bytes)
      else None)"

definition sample_encode :: wc_encoder where
  "sample_encode cp units =
     (if cp = CP_UTF8 then wide_to_utf8 units
      else if cp = CP_ACP then
        (if list_all (\<lambda>u. u < 0x100) units then Some (map ucast units) else None)
      else None)"


section \<open>strcvt.h: the conversions\<close>

text \<open>
  Each function takes the operating system's tables first, then the arguments of the
  source in their order. The default arguments of the source (\<open>length = -1\<close>,
  \<open>cp = CP_ACP\<close>) are passed explicitly.
\<close>

definition CStr2WString :: "mb_decoder \<Rightarrow> cstr \<Rightarrow> int \<Rightarrow> nat \<Rightarrow> wchar list" where
  "CStr2WString dec str len cp =
     (case str of
        None \<Rightarrow> []
      | Some mem \<Rightarrow>
          (let buffer = MultiByteToWideChar dec cp mem len;
               wlen = int (length buffer)
           in if wlen = 0 then [] else buffer))"

definition String2WString :: "mb_decoder \<Rightarrow> byte list \<Rightarrow> nat \<Rightarrow> wchar list" where
  "String2WString dec str cp =
     (if str = [] then []
      else CStr2WString dec (Some (c_str str)) (size_to_int (length str)) cp)"

definition WString2String :: "wc_encoder \<Rightarrow> wchar list \<Rightarrow> nat \<Rightarrow> byte list" where
  "WString2String enc wstr cp =
     (if wstr = [] then []
      else
        (let buffer = WideCharToMultiByte enc cp (c_str wstr) (size_to_int (length wstr));
             len = int (length buffer)
         in if len = 0 then [] else buffer))"

definition U8CStr2WString :: "mb_decoder \<Rightarrow> cstr \<Rightarrow> int \<Rightarrow> wchar list" where
  "U8CStr2WString dec str len =
     (if str = None \<or> len = 0 then [] else CStr2WString dec str len CP_UTF8)"

definition U8String2WString :: "mb_decoder \<Rightarrow> byte list \<Rightarrow> wchar list" where
  "U8String2WString dec str = (if str = [] then [] else String2WString dec str CP_UTF8)"

definition WString2U8String :: "wc_encoder \<Rightarrow> wchar list \<Rightarrow> byte list" where
  "WString2U8String enc wstr = (if wstr = [] then [] else WString2String enc wstr CP_UTF8)"

definition U8CStr2String :: "mb_decoder \<Rightarrow> wc_encoder \<Rightarrow> cstr \<Rightarrow> int \<Rightarrow> byte list" where
  "U8CStr2String dec enc utf8_str len =
     (if utf8_str = None \<or> len = 0 then []
      else
        (let wide_str = U8CStr2WString dec utf8_str len
         in WString2String enc wide_str CP_ACP))"

definition U8String2String :: "mb_decoder \<Rightarrow> wc_encoder \<Rightarrow> byte list \<Rightarrow> byte list" where
  "U8String2String dec enc utf8_str =
     (if utf8_str = [] then []
      else U8CStr2String dec enc (Some (c_str utf8_str)) (size_to_int (length utf8_str)))"

definition String2U8String :: "mb_decoder \<Rightarrow> wc_encoder \<Rightarrow> byte list \<Rightarrow> byte list" where
  "String2U8String dec enc str =
     (if str = [] then []
      else
        (let wide_str = String2WString dec str CP_ACP
         in WString2U8String enc wide_str))"


section \<open>strcvt.h: U8StrLength\<close>

text \<open>
  The scan loop. \<open>str\<close> is the offset the pointer has reached in \<open>mem\<close>, \<open>count\<close> the
  counter. Reading \<open>*str\<close> outside the object is the fault branch; the source has no
  check there. \<open>count\<close> is a \<open>size_t\<close>; it grows by one per byte read at most, so it
  stays below the size of the object and cannot wrap.
\<close>

function U8StrLength_loop :: "byte list \<Rightarrow> nat \<Rightarrow> nat \<Rightarrow> fault + nat" where
  "U8StrLength_loop mem str count =
     (if length mem \<le> str then Inl ReadOutOfBounds
      else
        (let c = mem ! str
         in if c = 0 then Inr count
            else if c < 0x80 then U8StrLength_loop mem (str + 1) (count + 1)
            else if drop_bit 5 c = 0x6 then U8StrLength_loop mem (str + 2) (count + 1)
            else if drop_bit 4 c = 0xE then U8StrLength_loop mem (str + 3) (count + 1)
            else if drop_bit 3 c = 0x1E then U8StrLength_loop mem (str + 4) (count + 1)
            else Inr count))"
  by pat_completeness auto
termination
  by (relation "measure (\<lambda>(mem, str, count). length mem - str)") auto

declare U8StrLength_loop.simps [simp del]

definition U8StrLength :: "cstr \<Rightarrow> fault + nat" where
  "U8StrLength str =
     (case str of None \<Rightarrow> Inr 0 | Some mem \<Rightarrow> U8StrLength_loop mem 0 0)"

text \<open>The overload for \<open>std::string\<close>.\<close>

definition U8StrLength_string :: "byte list \<Rightarrow> fault + nat" where
  "U8StrLength_string str = (if str = [] then Inr 0 else U8StrLength (Some (c_str str)))"


section \<open>utf8_args.h\<close>

text \<open>
  \<open>WideToUTF8\<close> asks the operating system for the UTF-8 form through the terminator and
  keeps all but the last byte: the string is built with \<open>size - 1\<close> elements and the
  routine's last byte lands on the string's own terminator.
\<close>

definition WideToUTF8 :: "wc_encoder \<Rightarrow> wcstr \<Rightarrow> byte list" where
  "WideToUTF8 enc wstr =
     (case wstr of
        None \<Rightarrow> []
      | Some wmem \<Rightarrow>
          (let written = WideCharToMultiByte enc CP_UTF8 wmem (- 1);
               n = int (length written)
           in if n \<le> 0 then [] else take (nat (n - 1)) written))"

text \<open>
  The loop \<open>for (int i = 0; i < argc; ++i) utf8_args.emplace_back(WideToUTF8(argv_w[i]))\<close>.
\<close>

function utf8_args_loop ::
  "wc_encoder \<Rightarrow> wchar list list \<Rightarrow> int \<Rightarrow> int \<Rightarrow> byte list list \<Rightarrow> byte list list" where
  "utf8_args_loop enc argv_w argc i utf8_args =
     (if i < argc
      then utf8_args_loop enc argv_w argc (i + 1)
             (utf8_args @ [WideToUTF8 enc (Some (argv_w ! nat i))])
      else utf8_args)"
  by pat_completeness auto
termination
  by (relation "measure (\<lambda>(enc, argv_w, argc, i, utf8_args). nat (argc - i))") auto

declare utf8_args_loop.simps [simp del]

text \<open>
  The Windows variant. \<open>CommandLineToArgvW (GetCommandLineW ())\<close> is the operating
  system's answer: \<open>None\<close> when it returns no array, otherwise the array of argument
  strings, each the memory of a terminated wide string; \<open>argc\<close> is the number of entries
  the routine reports. The error stream is the list of writes made so far; the function
  returns it with the arguments.
\<close>

definition parse_failure_message :: string where
  "parse_failure_message = ''[utf8_args] Failed to parse command line.'' @ [CHR 0x0A]"

definition GetUTF8CommandLineArgs ::
  "wc_encoder \<Rightarrow> wchar list list option \<Rightarrow> string list \<Rightarrow> string list \<times> byte list list" where
  "GetUTF8CommandLineArgs enc parsed stderr =
     (case parsed of
        None \<Rightarrow> (stderr @ [parse_failure_message], [])
      | Some argv_w \<Rightarrow> (stderr, utf8_args_loop enc argv_w (int (length argv_w)) 0 []))"

text \<open>
  The variant for the other platforms: \<open>std::vector<std::string>(argv, argv + argc)\<close>
  builds each entry from a \<open>char*\<close>, which copies the bytes before the terminator.
\<close>

definition string_of_cstr :: "byte list \<Rightarrow> byte list" where
  "string_of_cstr mem = takeWhile (\<lambda>b. b \<noteq> 0) mem"

definition GetUTF8CommandLineArgs_argv :: "int \<Rightarrow> byte list list \<Rightarrow> byte list list" where
  "GetUTF8CommandLineArgs_argv argc argv = map string_of_cstr (take (nat argc) argv)"


section \<open>Bytes and bit patterns\<close>

lemma word_and_not_mask:
  "(w :: 'a::len word) AND NOT (mask n) = push_bit n (drop_bit n w)"
  by (rule bit_word_eqI) (auto simp add: bit_simps)

lemma drop_push_drop:
  "drop_bit n (push_bit n (drop_bit n (w :: 'a::len word))) = drop_bit n w"
  by (rule bit_word_eqI) (auto simp add: bit_simps dest: bit_imp_le_length)

lemma high_bits_pattern:
  fixes w v :: "'a::len word"
  assumes "drop_bit n (push_bit n v) = v"
  shows "w AND NOT (mask n) = push_bit n v \<longleftrightarrow> drop_bit n w = v"
proof
  assume "w AND NOT (mask n) = push_bit n v"
  then have "drop_bit n (push_bit n (drop_bit n w)) = drop_bit n (push_bit n v)"
    by (simp only: word_and_not_mask)
  then show "drop_bit n w = v"
    by (simp only: drop_push_drop assms)
next
  assume "drop_bit n w = v"
  then show "w AND NOT (mask n) = push_bit n v"
    by (simp only: word_and_not_mask)
qed

lemma pattern_0: "(c :: byte) AND 0x80 = 0x00 \<longleftrightarrow> drop_bit 7 c = 0"
proof -
  have m: "(0x80 :: byte) = NOT (mask 7)"
    by (simp add: mask_eq_exp_minus_1)
  show ?thesis
    unfolding m using high_bits_pattern [of 7 0 c] by simp
qed

lemma pattern_110: "(c :: byte) AND 0xE0 = 0xC0 \<longleftrightarrow> drop_bit 5 c = 0x6"
proof -
  have m: "(0xE0 :: byte) = NOT (mask 5)"
    by (simp add: mask_eq_exp_minus_1)
  show ?thesis
    unfolding m using high_bits_pattern [of 5 "0x6" c] by simp
qed

lemma pattern_1110: "(c :: byte) AND 0xF0 = 0xE0 \<longleftrightarrow> drop_bit 4 c = 0xE"
proof -
  have m: "(0xF0 :: byte) = NOT (mask 4)"
    by (simp add: mask_eq_exp_minus_1)
  show ?thesis
    unfolding m using high_bits_pattern [of 4 "0xE" c] by simp
qed

lemma pattern_11110: "(c :: byte) AND 0xF8 = 0xF0 \<longleftrightarrow> drop_bit 3 c = 0x1E"
proof -
  have m: "(0xF8 :: byte) = NOT (mask 3)"
    by (simp add: mask_eq_exp_minus_1)
  show ?thesis
    unfolding m using high_bits_pattern [of 3 "0x1E" c] by simp
qed

lemma byte_shift_unat: "drop_bit k (c :: byte) = v \<longleftrightarrow> unat c div 2 ^ k = unat v"
proof -
  have u: "unat (drop_bit k c) = unat c div 2 ^ k"
    by (subst unat_drop_bit_eq) (rule drop_bit_eq_div)
  show ?thesis
    by (simp only: word_unat_eq_iff [of "drop_bit k c" v] u)
qed

lemma byte_lt_0x80: "(c :: byte) < 0x80 \<longleftrightarrow> unat c < 128"
  by (simp add: word_less_nat_alt)

lemma byte_shift7: "drop_bit 7 (c :: byte) = 0 \<longleftrightarrow> c < 0x80"
  by (simp add: byte_shift_unat byte_lt_0x80 div_eq_0_iff)

lemma unat_byte_of_nat: "n < 256 \<Longrightarrow> unat (of_nat n :: byte) = n"
  by (simp add: unat_of_nat)

text \<open>The masks of \<open>lead_width\<close> select the same bytes as the shifts of the source.\<close>

lemma lead_width_shifts:
  "lead_width c =
     (if c < 0x80 then Some 1
      else if drop_bit 5 c = 0x6 then Some 2
      else if drop_bit 4 c = 0xE then Some 3
      else if drop_bit 3 c = 0x1E then Some 4
      else None)"
  unfolding lead_width_def pattern_0 pattern_110 pattern_1110 pattern_11110 byte_shift7 ..

lemma lead_width_unat:
  "lead_width c =
     (if unat c < 128 then Some 1
      else if 192 \<le> unat c \<and> unat c < 224 then Some 2
      else if 224 \<le> unat c \<and> unat c < 240 then Some 3
      else if 240 \<le> unat c \<and> unat c < 248 then Some 4
      else None)"
proof -
  have 5: "drop_bit 5 c = 0x6 \<longleftrightarrow> 192 \<le> unat c \<and> unat c < 224"
    unfolding byte_shift_unat by simp arith
  have 4: "drop_bit 4 c = 0xE \<longleftrightarrow> 224 \<le> unat c \<and> unat c < 240"
    unfolding byte_shift_unat by simp arith
  have 3: "drop_bit 3 c = 0x1E \<longleftrightarrow> 240 \<le> unat c \<and> unat c < 248"
    unfolding byte_shift_unat by simp arith
  show ?thesis
    unfolding lead_width_shifts byte_lt_0x80 5 4 3 ..
qed


section \<open>The scan, one sequence at a time\<close>

lemma U8StrLength_loop_step:
  assumes "str < length mem" and "mem ! str \<noteq> 0"
  shows "U8StrLength_loop mem str count =
     (case lead_width (mem ! str) of
        Some w \<Rightarrow> U8StrLength_loop mem (str + w) (count + 1)
      | None \<Rightarrow> Inr count)"
  using assms
  by (subst U8StrLength_loop.simps) (simp add: lead_width_shifts Let_def)

lemma U8StrLength_loop_terminator:
  "U8StrLength_loop (pre @ 0 # rest) (length pre) count = Inr count"
  by (subst U8StrLength_loop.simps) simp

lemma U8StrLength_loop_outside:
  "length mem \<le> str \<Longrightarrow> U8StrLength_loop mem str count = Inl ReadOutOfBounds"
  by (subst U8StrLength_loop.simps) simp

text \<open>
  The counter only grows, by at most one per byte of the object: as a \<open>size_t\<close> it
  cannot wrap, which is why the model counts in natural numbers.
\<close>

lemma U8StrLength_loop_count_bound:
  "U8StrLength_loop mem str count = Inr n \<Longrightarrow> count \<le> n \<and> n \<le> count + (length mem - str)"
proof (induction mem str count rule: U8StrLength_loop.induct)
  case (1 mem str count)
  from "1.prems" have inb: "str < length mem"
    by (subst (asm) U8StrLength_loop.simps) (simp split: if_splits)
  show ?case
  proof (cases "mem ! str = 0")
    case True
    with "1.prems" inb show ?thesis
      by (subst (asm) U8StrLength_loop.simps) simp
  next
    case False
    with "1.prems" inb "1.IH" show ?thesis
      by (subst (asm) U8StrLength_loop.simps) (auto simp add: Let_def split: if_splits)
  qed
qed

lemma lead_of_encoding:
  assumes "is_scalar_value cp" and "cp \<noteq> 0"
  shows "utf8_encode cp \<noteq> [] \<and> hd (utf8_encode cp) \<noteq> 0
    \<and> lead_width (hd (utf8_encode cp)) = Some (length (utf8_encode cp))"
proof -
  have bound: "cp < 0x110000"
    using assms(1) by (auto simp add: is_scalar_value_def)
  consider (one) "cp < 0x80" | (two) "0x80 \<le> cp" "cp < 0x800"
    | (three) "0x800 \<le> cp" "cp < 0x10000" | (four) "0x10000 \<le> cp"
    by linarith
  then show ?thesis
  proof cases
    case one
    then have "unat (of_nat cp :: byte) = cp"
      by (simp add: unat_byte_of_nat)
    with one assms(2) show ?thesis
      by (auto simp add: utf8_encode_def lead_width_unat)
  next
    case two
    then have "unat (of_nat (0xC0 + cp div 0x40) :: byte) = 0xC0 + cp div 0x40"
      by (intro unat_byte_of_nat) simp
    with two show ?thesis
      by (auto simp add: utf8_encode_def lead_width_unat)
  next
    case three
    then have "unat (of_nat (0xE0 + cp div 0x1000) :: byte) = 0xE0 + cp div 0x1000"
      by (intro unat_byte_of_nat) simp
    with three show ?thesis
      by (auto simp add: utf8_encode_def lead_width_unat)
  next
    case four
    with bound have "unat (of_nat (0xF0 + cp div 0x40000) :: byte) = 0xF0 + cp div 0x40000"
      by (intro unat_byte_of_nat) simp
    with four bound show ?thesis
      by (auto simp add: utf8_encode_def lead_width_unat)
  qed
qed

lemma U8StrLength_loop_encoding:
  assumes "is_scalar_value cp" and "cp \<noteq> 0"
  shows "U8StrLength_loop (pre @ utf8_encode cp @ post) (length pre) count =
    U8StrLength_loop (pre @ utf8_encode cp @ post)
      (length pre + length (utf8_encode cp)) (count + 1)"
proof -
  let ?mem = "pre @ utf8_encode cp @ post"
  from lead_of_encoding [OF assms]
  have ne: "utf8_encode cp \<noteq> []" and nz: "hd (utf8_encode cp) \<noteq> 0"
    and w: "lead_width (hd (utf8_encode cp)) = Some (length (utf8_encode cp))"
    by simp_all
  from ne have at: "?mem ! length pre = hd (utf8_encode cp)"
    by (cases "utf8_encode cp") (simp_all add: nth_append)
  from ne have inb: "length pre < length ?mem"
    by simp
  show ?thesis
    using U8StrLength_loop_step [of "length pre" ?mem count] inb nz w
    by (simp add: at)
qed

text \<open>Over a well-formed stretch the scan moves to its end and counts its code points.\<close>

lemma U8StrLength_loop_utf8_string:
  assumes "list_all (\<lambda>cp. is_scalar_value cp \<and> cp \<noteq> 0) cps"
  shows "U8StrLength_loop (pre @ utf8_string cps @ post) (length pre) count =
    U8StrLength_loop (pre @ utf8_string cps @ post)
      (length pre + length (utf8_string cps)) (count + length cps)"
  using assms
proof (induction cps arbitrary: pre count)
  case Nil
  then show ?case
    by (simp add: utf8_string_def)
next
  case (Cons cp cps)
  then have cp: "is_scalar_value cp" "cp \<noteq> 0"
    and rest: "list_all (\<lambda>cp. is_scalar_value cp \<and> cp \<noteq> 0) cps"
    by simp_all
  let ?post = "utf8_string cps @ post"
  have "U8StrLength_loop (pre @ utf8_string (cp # cps) @ post) (length pre) count =
      U8StrLength_loop (pre @ utf8_encode cp @ ?post) (length pre) count"
    by (simp add: utf8_string_def)
  also have "\<dots> = U8StrLength_loop (pre @ utf8_encode cp @ ?post)
      (length pre + length (utf8_encode cp)) (count + 1)"
    by (rule U8StrLength_loop_encoding [OF cp])
  also have "\<dots> = U8StrLength_loop ((pre @ utf8_encode cp) @ ?post)
      (length (pre @ utf8_encode cp)) (count + 1)"
    by simp
  also have "\<dots> = U8StrLength_loop ((pre @ utf8_encode cp) @ ?post)
      (length (pre @ utf8_encode cp) + length (utf8_string cps)) (count + 1 + length cps)"
    by (rule Cons.IH [OF rest])
  finally show ?case
    by (simp add: utf8_string_def add.assoc)
qed


section \<open>The scan and the counter of the spec\<close>

text \<open>
  The loop of the source, at the offset \<open>str\<close> of the object \<open>mem\<close>, is the counter of the
  spec on the bytes from that offset onwards.
\<close>

lemma U8StrLength_loop_refines:
  "U8StrLength_loop mem str count = utf8_codepoint_length (drop str mem) count"
proof (induction mem str count rule: U8StrLength_loop.induct)
  case (1 mem str count)
  show ?case
  proof (cases "length mem \<le> str")
    case True
    then show ?thesis
      by (simp add: U8StrLength_loop_outside utf8_codepoint_length.simps)
  next
    case False
    then have inb: "str < length mem"
      by simp
    then have split: "drop str mem = mem ! str # drop (Suc str) mem"
      by (simp add: Cons_nth_drop_Suc)
    show ?thesis
    proof (cases "mem ! str = 0")
      case True
      with inb show ?thesis
        by (subst U8StrLength_loop.simps) (simp add: split utf8_codepoint_length.simps)
    next
      case nz: False
      show ?thesis
      proof (cases "lead_width (mem ! str)")
        case None
        with inb nz show ?thesis
          by (simp add: U8StrLength_loop_step split utf8_codepoint_length.simps)
      next
        case (Some w)
        then have w: "w = 1 \<or> w = 2 \<or> w = 3 \<or> w = 4"
          by (auto simp add: lead_width_def split: if_splits)
        have ih: "U8StrLength_loop mem (str + w) (count + 1) =
            utf8_codepoint_length (drop (str + w) mem) (count + 1)"
          using w Some "1.IH" False nz
          by (auto simp add: lead_width_shifts split: if_splits)
        have "w - 1 + Suc str = str + w"
          using w by auto
        then have "drop (w - 1) (drop (Suc str) mem) = drop (str + w) mem"
          by (simp only: drop_drop)
        with inb nz Some ih show ?thesis
          by (simp add: U8StrLength_loop_step split utf8_codepoint_length.simps)
      qed
    qed
  qed
qed

lemma utf8_codepoint_length_count:
  "utf8_codepoint_length bytes (count + k) =
     (case utf8_codepoint_length bytes count of Inl e \<Rightarrow> Inl e | Inr n \<Rightarrow> Inr (n + k))"
proof (induction bytes count rule: utf8_codepoint_length.induct)
  case (1 count)
  show ?case
    by (simp add: utf8_codepoint_length.simps)
next
  case (2 c rest count)
  show ?case
  proof (cases "c = 0")
    case True
    then show ?thesis
      by (simp add: utf8_codepoint_length.simps)
  next
    case False
    show ?thesis
    proof (cases "lead_width c")
      case None
      with False show ?thesis
        by (simp add: utf8_codepoint_length.simps)
    next
      case (Some w)
      with False 2 have "utf8_codepoint_length (drop (w - 1) rest) (count + 1 + k) =
          (case utf8_codepoint_length (drop (w - 1) rest) (count + 1) of
             Inl e \<Rightarrow> Inl e | Inr n \<Rightarrow> Inr (n + k))"
        by simp
      with False Some show ?thesis
        by (simp add: utf8_codepoint_length.simps add.commute add.left_commute)
    qed
  qed
qed

lemma U8StrLength_refines:
  "U8StrLength (Some mem) = utf8_codepoint_length mem 0"
  using U8StrLength_loop_refines [of mem 0 0] by (simp add: U8StrLength_def)

lemma U8StrLength_sequence:
  assumes "c \<noteq> 0" and "lead_width c = Some w" and "length skipped = w - 1"
  shows "U8StrLength (Some (c # skipped @ rest)) =
    (case U8StrLength (Some rest) of Inl e \<Rightarrow> Inl e | Inr n \<Rightarrow> Inr (n + 1))"
proof -
  have "U8StrLength (Some (c # skipped @ rest)) = utf8_codepoint_length rest (0 + 1)"
    using assms by (simp add: U8StrLength_refines utf8_codepoint_length.simps)
  then show ?thesis
    by (simp only: utf8_codepoint_length_count U8StrLength_refines)
qed

lemma U8StrLength_stops:
  assumes "list_all (\<lambda>cp. is_scalar_value cp \<and> cp \<noteq> 0) cps"
    and "c \<noteq> 0" and "lead_width c = None"
  shows "U8StrLength (Some (utf8_string cps @ c # rest)) = Inr (length cps)"
proof -
  have "U8StrLength_loop ([] @ utf8_string cps @ c # rest) (length ([] :: byte list)) 0 =
      U8StrLength_loop ([] @ utf8_string cps @ c # rest)
        (length ([] :: byte list) + length (utf8_string cps)) (0 + length cps)"
    by (rule U8StrLength_loop_utf8_string [OF assms(1)])
  moreover have "U8StrLength_loop (utf8_string cps @ c # rest) (length (utf8_string cps))
      (length cps) = Inr (length cps)"
    using U8StrLength_loop_step [of "length (utf8_string cps)" "utf8_string cps @ c # rest"
        "length cps"] assms(2,3)
    by simp
  ultimately show ?thesis
    by (simp add: U8StrLength_def)
qed


section \<open>Claims about U8StrLength\<close>

text \<open>
  C1. For a terminated byte sequence that consists of well-formed UTF-8 sequences of one
  to four bytes with no embedded zero, that is, the encoding of a list of non-zero
  Unicode scalar values followed by the terminator (and by whatever the object holds
  after it), \<open>U8StrLength\<close> returns the number of scalar values encoded.
\<close>

theorem U8StrLength_counts_code_points:
  assumes "list_all (\<lambda>cp. is_scalar_value cp \<and> cp \<noteq> 0) cps"
  shows "U8StrLength (Some (utf8_string cps @ 0 # rest)) = Inr (length cps)"
proof -
  have "U8StrLength_loop ([] @ utf8_string cps @ 0 # rest) (length ([] :: byte list)) 0 =
      U8StrLength_loop ([] @ utf8_string cps @ 0 # rest)
        (length ([] :: byte list) + length (utf8_string cps)) (0 + length cps)"
    by (rule U8StrLength_loop_utf8_string [OF assms])
  also have "\<dots> = Inr (length cps)"
    using U8StrLength_loop_terminator [of "utf8_string cps" rest "length cps"] by simp
  finally show ?thesis
    by (simp add: U8StrLength_def)
qed

text \<open>
  The example of the spec: the six bytes of "hello", spelt with e-acute, hold five code
  points.
\<close>

theorem U8StrLength_counts_hello:
  "utf8_string [0x68, 0xE9, 0x6C, 0x6C, 0x6F] = [0x68, 0xC3, 0xA9, 0x6C, 0x6C, 0x6F]
   \<and> U8StrLength (Some [0x68, 0xC3, 0xA9, 0x6C, 0x6C, 0x6F, 0]) = Inr 5"
  using U8StrLength_counts_code_points [of "[0x68, 0xE9, 0x6C, 0x6C, 0x6F]" "[]"]
  by (simp add: utf8_string_def utf8_encode_def is_scalar_value_def)

text \<open>
  C2. \<open>U8StrLength\<close> is the scan that the spec words: on a pointer it returns what
  \<open>utf8_codepoint_length\<close> returns on the bytes from the pointer onwards. It classifies
  each lead byte by its high bits (\<open>lead_width\<close>): a non-zero byte of declared width \<open>w\<close>
  counts one, and the scan goes on after the \<open>w - 1\<close> bytes that follow it, whatever they
  are, so the result is one more than the result on the rest. After well-formed text, a
  non-zero byte that matches none of the four patterns ends the scan, and the result is
  the number of code points of the text before it. The same holds for each step of the
  loop, at every offset inside the object. A sequence whose first byte is \<open>0xFF\<close> yields 0.
\<close>

theorem U8StrLength_classifies_lead_bytes:
  "U8StrLength (Some mem) = utf8_codepoint_length mem 0
   \<and> (c \<noteq> 0 \<and> lead_width c = Some w \<and> length skipped = w - 1 \<longrightarrow>
        U8StrLength (Some (c # skipped @ rest)) =
          (case U8StrLength (Some rest) of Inl e \<Rightarrow> Inl e | Inr n \<Rightarrow> Inr (n + 1)))
   \<and> (list_all (\<lambda>cp. is_scalar_value cp \<and> cp \<noteq> 0) cps \<and> c \<noteq> 0 \<and> lead_width c = None \<longrightarrow>
        U8StrLength (Some (utf8_string cps @ c # rest)) = Inr (length cps))
   \<and> (str < length mem \<and> mem ! str \<noteq> 0 \<longrightarrow>
        U8StrLength_loop mem str count =
          (case lead_width (mem ! str) of
             Some w \<Rightarrow> U8StrLength_loop mem (str + w) (count + 1)
           | None \<Rightarrow> Inr count))
   \<and> U8StrLength (Some (0xFF # rest)) = Inr 0"
proof (intro conjI impI)
  show "U8StrLength (Some mem) = utf8_codepoint_length mem 0"
    by (rule U8StrLength_refines)
next
  assume "c \<noteq> 0 \<and> lead_width c = Some w \<and> length skipped = w - 1"
  then show "U8StrLength (Some (c # skipped @ rest)) =
      (case U8StrLength (Some rest) of Inl e \<Rightarrow> Inl e | Inr n \<Rightarrow> Inr (n + 1))"
    by (simp add: U8StrLength_sequence)
next
  assume "list_all (\<lambda>cp. is_scalar_value cp \<and> cp \<noteq> 0) cps \<and> c \<noteq> 0 \<and> lead_width c = None"
  then show "U8StrLength (Some (utf8_string cps @ c # rest)) = Inr (length cps)"
    by (simp add: U8StrLength_stops)
next
  assume "str < length mem \<and> mem ! str \<noteq> 0"
  then show "U8StrLength_loop mem str count =
      (case lead_width (mem ! str) of
         Some w \<Rightarrow> U8StrLength_loop mem (str + w) (count + 1)
       | None \<Rightarrow> Inr count)"
    by (simp add: U8StrLength_loop_step)
next
  have "lead_width (0xFF :: byte) = None"
    by (simp add: lead_width_unat)
  then show "U8StrLength (Some (0xFF # rest)) = Inr 0"
    by (simp add: U8StrLength_refines utf8_codepoint_length.simps)
qed

text \<open>
  Instances: a lone continuation byte after \<open>'a'\<close> stops the scan at 1; a three-byte lead
  followed by two letters takes them for its continuation bytes; two three-byte sequences
  followed by \<open>0xF8\<close> give 2; the example of the spec, \<open>FF FE 'a' 'b' 'c'\<close>, gives 0.
\<close>

theorem U8StrLength_classifies_examples:
  "U8StrLength (Some [0x61, 0x80, 0x62, 0]) = Inr 1
   \<and> U8StrLength (Some [0xE4, 0x41, 0x42, 0x61, 0]) = Inr 2
   \<and> utf8_string [0x4F60, 0x597D] = [0xE4, 0xBD, 0xA0, 0xE5, 0xA5, 0xBD]
   \<and> U8StrLength (Some [0xE4, 0xBD, 0xA0, 0xE5, 0xA5, 0xBD, 0xF8, 0x61, 0]) = Inr 2
   \<and> U8StrLength (Some [0xFF, 0xFE, 0x61, 0x62, 0x63, 0]) = Inr 0"
proof -
  note refines = U8StrLength_classifies_lead_bytes [THEN conjunct1]
  note sequence = U8StrLength_classifies_lead_bytes [THEN conjunct2, THEN conjunct1]
  note stops = U8StrLength_classifies_lead_bytes
    [THEN conjunct2, THEN conjunct2, THEN conjunct1]
  note ff = U8StrLength_classifies_lead_bytes
    [THEN conjunct2, THEN conjunct2, THEN conjunct2, THEN conjunct2]
  have a: "U8StrLength (Some [0x61, 0]) = Inr 1"
    by (simp add: refines [of "[0x61, 0]"] utf8_codepoint_length.simps lead_width_unat)
  have 1: "U8StrLength (Some [0x61, 0x80, 0x62, 0]) = Inr 1"
    using stops [of "[0x61]" "0x80" "[0x62, 0]"]
    by (simp add: utf8_string_def utf8_encode_def is_scalar_value_def lead_width_unat)
  have 2: "U8StrLength (Some [0xE4, 0x41, 0x42, 0x61, 0]) = Inr 2"
    using sequence [of "0xE4" 3 "[0x41, 0x42]" "[0x61, 0]"]
    by (simp add: a lead_width_unat)
  have 3: "utf8_string [0x4F60, 0x597D] = [0xE4, 0xBD, 0xA0, 0xE5, 0xA5, 0xBD]"
    by (simp add: utf8_string_def utf8_encode_def)
  have 4: "U8StrLength (Some [0xE4, 0xBD, 0xA0, 0xE5, 0xA5, 0xBD, 0xF8, 0x61, 0]) = Inr 2"
    using stops [of "[0x4F60, 0x597D]" "0xF8" "[0x61, 0]"]
    by (simp add: 3 is_scalar_value_def lead_width_unat)
  have 5: "U8StrLength (Some [0xFF, 0xFE, 0x61, 0x62, 0x63, 0]) = Inr 0"
    by (rule ff)
  from 1 2 3 4 5 show ?thesis
    by (intro conjI)
qed

lemma lead_width_nonzero: "lead_width c = Some w \<Longrightarrow> 2 \<le> w \<Longrightarrow> c \<noteq> 0"
  by (auto simp add: lead_width_unat split: if_splits)

lemma U8StrLength_loop_lead:
  assumes "lead_width c = Some w" and "2 \<le> w"
  shows "U8StrLength_loop (pre @ c # post) (length pre) count =
    U8StrLength_loop (pre @ c # post) (length pre + w) (count + 1)"
  using U8StrLength_loop_step [of "length pre" "pre @ c # post" count]
    lead_width_nonzero [OF assms] assms(1)
  by simp

text \<open>
  C10. An input that ends inside a multi-byte sequence: well-formed text, then a lead
  byte that declares \<open>w\<close> bytes, then fewer than \<open>w - 1\<close> further bytes, then the
  terminator. The scan steps from the lead byte to an offset beyond the terminator and
  goes on from there, whatever the object holds at that place; when the object ends with
  the terminator, that read is outside the object and the scan ends in the fault branch.
\<close>

theorem U8StrLength_truncated_sequence:
  assumes "list_all (\<lambda>cp. is_scalar_value cp \<and> cp \<noteq> 0) cps"
    and "lead_width c = Some w" and "length tail + 2 \<le> w"
  shows "U8StrLength_loop (utf8_string cps @ c # tail @ 0 # beyond) 0 0 =
      U8StrLength_loop (utf8_string cps @ c # tail @ 0 # beyond)
        (length (utf8_string cps @ c # tail) + (w - length tail - 1)) (length cps + 1)
    \<and> 0 < w - length tail - 1
    \<and> U8StrLength (Some (utf8_string cps @ c # tail @ [0])) = Inl ReadOutOfBounds"
proof -
  have w2: "2 \<le> w"
    using assms(3) by simp
  have skip: "U8StrLength_loop (utf8_string cps @ c # post) 0 0 =
      U8StrLength_loop (utf8_string cps @ c # post) (length (utf8_string cps) + w)
        (length cps + 1)" for post
  proof -
    have "U8StrLength_loop ([] @ utf8_string cps @ c # post) (length ([] :: byte list)) 0 =
        U8StrLength_loop ([] @ utf8_string cps @ c # post)
          (length ([] :: byte list) + length (utf8_string cps)) (0 + length cps)"
      by (rule U8StrLength_loop_utf8_string [OF assms(1)])
    then show ?thesis
      using U8StrLength_loop_lead [OF assms(2) w2, of "utf8_string cps" post "length cps"]
      by simp
  qed
  have pos: "length (utf8_string cps) + w =
      length (utf8_string cps @ c # tail) + (w - length tail - 1)"
    using assms(3) by simp
  have 1: "U8StrLength_loop (utf8_string cps @ c # tail @ 0 # beyond) 0 0 =
      U8StrLength_loop (utf8_string cps @ c # tail @ 0 # beyond)
        (length (utf8_string cps @ c # tail) + (w - length tail - 1)) (length cps + 1)"
    using skip [of "tail @ 0 # beyond"] by (simp only: pos)
  have 2: "0 < w - length tail - 1"
    using assms(3) by simp
  have "length (utf8_string cps @ c # tail @ [0]) \<le> length (utf8_string cps) + w"
    using assms(3) by simp
  then have "U8StrLength_loop (utf8_string cps @ c # tail @ [0])
      (length (utf8_string cps) + w) (length cps + 1) = Inl ReadOutOfBounds"
    by (rule U8StrLength_loop_outside)
  then have 3: "U8StrLength (Some (utf8_string cps @ c # tail @ [0])) = Inl ReadOutOfBounds"
    using skip [of "tail @ [0]"] by (simp add: U8StrLength_def)
  from 1 2 3 show ?thesis
    by (intro conjI)
qed

text \<open>
  Instances: "a" and the first two bytes of a three-byte sequence. When the object ends
  with the terminator the scan faults; when two more characters and a second terminator
  follow in memory, the scan counts them too and returns 4.
\<close>

theorem U8StrLength_truncated_examples:
  "U8StrLength (Some [0x61, 0xE4, 0xBD, 0]) = Inl ReadOutOfBounds
   \<and> U8StrLength (Some [0x61, 0xE4, 0xBD, 0, 0x62, 0x63, 0]) = Inr 4"
proof -
  have tail: "U8StrLength_loop [0x61, 0xE4, 0xBD, 0, 0x62, 0x63, 0] (Suc (Suc (Suc (Suc 0))))
      (Suc (Suc 0)) = Inr 4"
    by (simp add: U8StrLength_loop.simps)
  show ?thesis
    using U8StrLength_truncated_sequence [of "[0x61]" "0xE4" 3 "[0xBD]" "[0x62, 0x63, 0]"]
    by (simp add: utf8_string_def utf8_encode_def is_scalar_value_def lead_width_unat
        U8StrLength_def tail)
qed


section \<open>The reference decoders invert the encoders\<close>

lemma unat_wchar_of_nat: "n < 65536 \<Longrightarrow> unat (of_nat n :: wchar) = n"
  by (simp add: unat_of_nat)

lemma continuation_byte:
  assumes "x < 0x40"
  shows "continuation (of_nat (0x80 + x)) \<and> payload (of_nat (0x80 + x)) = x"
proof -
  have "unat (of_nat (0x80 + x) :: byte) = 0x80 + x"
    using assms by (intro unat_byte_of_nat) simp
  with assms show ?thesis
    by (simp add: continuation_def payload_def)
qed

lemma utf8_decode_two:
  assumes "q < 0x20" and "r < 0x40" and "0x80 \<le> q * 0x40 + r"
  shows "utf8_decode (of_nat (0xC0 + q) # of_nat (0x80 + r) # bytes) =
    map_option ((#) (q * 0x40 + r)) (utf8_decode bytes)"
proof -
  have lead: "unat (of_nat (0xC0 + q) :: byte) = 0xC0 + q"
    using assms(1) by (intro unat_byte_of_nat) simp
  show ?thesis
    using assms lead continuation_byte [of r] by (simp del: of_nat_add)
qed

lemma utf8_decode_three:
  assumes "q < 0x10" and "r1 < 0x40" and "r0 < 0x40"
    and "0x800 \<le> (q * 0x40 + r1) * 0x40 + r0"
    and "is_scalar_value ((q * 0x40 + r1) * 0x40 + r0)"
  shows "utf8_decode (of_nat (0xE0 + q) # of_nat (0x80 + r1) # of_nat (0x80 + r0) # bytes) =
    map_option ((#) ((q * 0x40 + r1) * 0x40 + r0)) (utf8_decode bytes)"
proof -
  have lead: "unat (of_nat (0xE0 + q) :: byte) = 0xE0 + q"
    using assms(1) by (intro unat_byte_of_nat) simp
  show ?thesis
    using assms lead continuation_byte [of r1] continuation_byte [of r0]
    by (simp del: of_nat_add)
qed

lemma utf8_decode_four:
  assumes "q < 0x08" and "r2 < 0x40" and "r1 < 0x40" and "r0 < 0x40"
    and "0x10000 \<le> ((q * 0x40 + r2) * 0x40 + r1) * 0x40 + r0"
    and "((q * 0x40 + r2) * 0x40 + r1) * 0x40 + r0 < 0x110000"
  shows "utf8_decode (of_nat (0xF0 + q) # of_nat (0x80 + r2) # of_nat (0x80 + r1)
      # of_nat (0x80 + r0) # bytes) =
    map_option ((#) (((q * 0x40 + r2) * 0x40 + r1) * 0x40 + r0)) (utf8_decode bytes)"
proof -
  have lead: "unat (of_nat (0xF0 + q) :: byte) = 0xF0 + q"
    using assms(1) by (intro unat_byte_of_nat) simp
  show ?thesis
    using assms lead continuation_byte [of r2] continuation_byte [of r1]
      continuation_byte [of r0]
    by (simp del: of_nat_add)
qed

lemma recompose_three:
  "((cp::nat) div 0x1000 * 0x40 + cp div 0x40 mod 0x40) * 0x40 + cp mod 0x40 = cp"
proof -
  have "cp div 0x1000 = cp div 0x40 div 0x40"
    by (simp add: div_mult2_eq [symmetric])
  then show ?thesis
    by (simp only: div_mult_mod_eq)
qed

lemma recompose_four:
  "(((cp::nat) div 0x40000 * 0x40 + cp div 0x1000 mod 0x40) * 0x40
      + cp div 0x40 mod 0x40) * 0x40 + cp mod 0x40 = cp"
proof -
  have "cp div 0x1000 = cp div 0x40 div 0x40"
    and "cp div 0x40000 = cp div 0x40 div 0x40 div 0x40"
    by (simp_all add: div_mult2_eq [symmetric])
  then show ?thesis
    by (simp only: div_mult_mod_eq)
qed

lemma utf8_decode_encode:
  assumes "is_scalar_value cp"
  shows "utf8_decode (utf8_encode cp @ bytes) = map_option ((#) cp) (utf8_decode bytes)"
proof -
  have bound: "cp < 0x110000"
    using assms by (auto simp add: is_scalar_value_def)
  consider (one) "cp < 0x80" | (two) "0x80 \<le> cp" "cp < 0x800"
    | (three) "0x800 \<le> cp" "cp < 0x10000" | (four) "0x10000 \<le> cp"
    by linarith
  then show ?thesis
  proof cases
    case one
    then have "unat (of_nat cp :: byte) = cp"
      by (simp add: unat_byte_of_nat)
    with one show ?thesis
      by (simp add: utf8_encode_def)
  next
    case two
    have whole: "cp div 0x40 * 0x40 + cp mod 0x40 = cp"
      by simp
    from two have "utf8_decode (utf8_encode cp @ bytes) =
        utf8_decode (of_nat (0xC0 + cp div 0x40) # of_nat (0x80 + cp mod 0x40) # bytes)"
      by (simp add: utf8_encode_def)
    also have "\<dots> = map_option ((#) (cp div 0x40 * 0x40 + cp mod 0x40)) (utf8_decode bytes)"
      using two by (intro utf8_decode_two) simp_all
    finally show ?thesis
      by (simp only: whole)
  next
    case three
    have whole: "(cp div 0x1000 * 0x40 + cp div 0x40 mod 0x40) * 0x40 + cp mod 0x40 = cp"
      by (rule recompose_three)
    from three have "utf8_decode (utf8_encode cp @ bytes) =
        utf8_decode (of_nat (0xE0 + cp div 0x1000) # of_nat (0x80 + cp div 0x40 mod 0x40)
          # of_nat (0x80 + cp mod 0x40) # bytes)"
      by (simp add: utf8_encode_def)
    also have "\<dots> = map_option
        ((#) ((cp div 0x1000 * 0x40 + cp div 0x40 mod 0x40) * 0x40 + cp mod 0x40))
        (utf8_decode bytes)"
      using three assms by (intro utf8_decode_three; (simp only: whole)?; simp)
    finally show ?thesis
      by (simp only: whole)
  next
    case four
    have whole: "((cp div 0x40000 * 0x40 + cp div 0x1000 mod 0x40) * 0x40
        + cp div 0x40 mod 0x40) * 0x40 + cp mod 0x40 = cp"
      by (rule recompose_four)
    from four have "utf8_decode (utf8_encode cp @ bytes) =
        utf8_decode (of_nat (0xF0 + cp div 0x40000) # of_nat (0x80 + cp div 0x1000 mod 0x40)
          # of_nat (0x80 + cp div 0x40 mod 0x40) # of_nat (0x80 + cp mod 0x40) # bytes)"
      by (simp add: utf8_encode_def)
    also have "\<dots> = map_option
        ((#) (((cp div 0x40000 * 0x40 + cp div 0x1000 mod 0x40) * 0x40
          + cp div 0x40 mod 0x40) * 0x40 + cp mod 0x40))
        (utf8_decode bytes)"
      using four bound by (intro utf8_decode_four; (simp only: whole)?; simp)
    finally show ?thesis
      by (simp only: whole)
  qed
qed

lemma utf8_decode_string:
  "list_all is_scalar_value cps \<Longrightarrow> utf8_decode (utf8_string cps @ bytes) =
     map_option ((@) cps) (utf8_decode bytes)"
proof (induction cps)
  case Nil
  show ?case
    by (simp add: utf8_string_def option.map_ident)
next
  case (Cons cp cps)
  then have "utf8_decode (utf8_encode cp @ utf8_string cps @ bytes) =
      map_option ((#) cp) (map_option ((@) cps) (utf8_decode bytes))"
    by (simp add: utf8_decode_encode)
  then show ?case
    by (simp add: utf8_string_def option.map_comp comp_def)
qed

lemma utf16_decode_encode:
  assumes "is_scalar_value cp"
  shows "utf16_decode (utf16_encode cp @ units) = map_option ((#) cp) (utf16_decode units)"
proof (cases "cp < 0x10000")
  case True
  then have "unat (of_nat cp :: wchar) = cp"
    by (simp add: unat_wchar_of_nat)
  with True assms show ?thesis
    by (auto simp add: utf16_encode_def is_scalar_value_def)
next
  case False
  with assms have range: "cp - 0x10000 < 0x100000"
    by (auto simp add: is_scalar_value_def)
  then have "(cp - 0x10000) div 0x400 < 0x400"
    by simp
  then have hi: "unat (of_nat (0xD800 + (cp - 0x10000) div 0x400) :: wchar) =
      0xD800 + (cp - 0x10000) div 0x400"
    by (intro unat_wchar_of_nat) simp
  have lo: "unat (of_nat (0xDC00 + (cp - 0x10000) mod 0x400) :: wchar) =
      0xDC00 + (cp - 0x10000) mod 0x400"
    by (intro unat_wchar_of_nat) simp
  have "0x10000 + (cp - 0x10000) div 0x400 * 0x400 + (cp - 0x10000) mod 0x400 = cp"
    using False by simp
  with False hi lo \<open>(cp - 0x10000) div 0x400 < 0x400\<close> show ?thesis
    by (simp add: utf16_encode_def)
qed

lemma utf16_decode_string:
  "list_all is_scalar_value cps \<Longrightarrow> utf16_decode (utf16_string cps @ units) =
     map_option ((@) cps) (utf16_decode units)"
proof (induction cps)
  case Nil
  show ?case
    by (simp add: utf16_string_def option.map_ident)
next
  case (Cons cp cps)
  then have "utf16_decode (utf16_encode cp @ utf16_string cps @ units) =
      map_option ((#) cp) (map_option ((@) cps) (utf16_decode units))"
    by (simp add: utf16_decode_encode)
  then show ?case
    by (simp add: utf16_string_def option.map_comp comp_def)
qed

lemma utf8_to_wide_string:
  "list_all is_scalar_value cps \<Longrightarrow> utf8_to_wide (utf8_string cps) = Some (utf16_string cps)"
  using utf8_decode_string [of cps "[]"] by (simp add: utf8_to_wide_def)

lemma wide_to_utf8_string:
  "list_all is_scalar_value cps \<Longrightarrow> wide_to_utf8 (utf16_string cps) = Some (utf8_string cps)"
  using utf16_decode_string [of cps "[]"] by (simp add: wide_to_utf8_def)

lemma length_utf16_encode: "length (utf16_encode cp) \<le> length (utf8_encode cp)"
  by (simp add: utf16_encode_def utf8_encode_def)

lemma length_utf16_string: "length (utf16_string cps) \<le> length (utf8_string cps)"
proof (induction cps)
  case Nil
  show ?case
    by (simp add: utf16_string_def utf8_string_def)
next
  case (Cons cp cps)
  with length_utf16_encode [of cp] show ?case
    by (simp add: utf16_string_def utf8_string_def)
qed

lemma utf8_string_empty: "utf8_string cps = [] \<longleftrightarrow> cps = []"
  by (cases cps) (simp_all add: utf8_string_def utf8_encode_def)

lemma utf16_string_empty: "utf16_string cps = [] \<longleftrightarrow> cps = []"
  by (cases cps) (simp_all add: utf16_string_def utf16_encode_def)


section \<open>The conversions on strings within the range of int\<close>

lemma size_to_int_small: "n < 2 ^ 31 \<Longrightarrow> size_to_int n = int n"
proof -
  assume n: "n < 2 ^ 31"
  have "(of_nat n :: 32 word) = word_of_int (int n)"
    by simp
  then have "size_to_int n = (int n + 2 ^ 31) mod 2 ^ 32 - 2 ^ 31"
    unfolding size_to_int_def by (simp only: int_word_sint) simp
  also have "(int n + 2 ^ 31) mod 2 ^ 32 = int n + 2 ^ 31"
    using n by (intro mod_pos_pos_trivial) simp_all
  finally show ?thesis
    by simp
qed

lemma size_to_int_wraps: "size_to_int 4294967296 = 0"
  by (simp add: size_to_int_def)

lemma take_c_str: "take (length s) (c_str s) = s"
  by (simp add: c_str_def)

lemma before_terminator_append:
  "list_all (\<lambda>x. x \<noteq> 0) s \<Longrightarrow> before_terminator (s @ 0 # rest) = s"
  by (induction s) (simp_all add: before_terminator_def)

lemma CStr2WString_Some:
  "CStr2WString dec (Some mem) len cp = MultiByteToWideChar dec cp mem len"
  by (simp add: CStr2WString_def Let_def)

lemma WString2String_units:
  "WString2String enc wstr cp =
     (if wstr = [] then []
      else WideCharToMultiByte enc cp (c_str wstr) (size_to_int (length wstr)))"
  by (simp add: WString2String_def Let_def)

lemma String2WString_units:
  "String2WString dec str cp =
     (if str = [] then []
      else MultiByteToWideChar dec cp (c_str str) (size_to_int (length str)))"
  by (simp add: String2WString_def CStr2WString_Some)

lemma String2WString_small:
  assumes "str \<noteq> []" and "length str < 2 ^ 31" and "dec cp str = Some units"
  shows "String2WString dec str cp = units"
  using assms
  by (simp add: String2WString_units MultiByteToWideChar_def size_to_int_small take_c_str)

lemma WString2String_small:
  assumes "wstr \<noteq> []" and "length wstr < 2 ^ 31" and "enc cp wstr = Some bytes"
  shows "WString2String enc wstr cp = bytes"
  using assms
  by (simp add: WString2String_units WideCharToMultiByte_def size_to_int_small take_c_str)

lemma U8CStr2String_stages:
  "U8CStr2String dec enc utf8_str len =
     WString2String enc (U8CStr2WString dec utf8_str len) CP_ACP"
  by (simp add: U8CStr2String_def U8CStr2WString_def WString2String_def Let_def)

lemma U8String2String_stages:
  "U8String2String dec enc s = WString2String enc (U8String2WString dec s) CP_ACP"
proof (cases "s = []")
  case True
  then show ?thesis
    by (simp add: U8String2String_def U8String2WString_def WString2String_def)
next
  case False
  have "U8CStr2WString dec (Some (c_str s)) (size_to_int (length s)) =
      String2WString dec s CP_UTF8"
    using False
    by (simp add: U8CStr2WString_def String2WString_def CStr2WString_Some
        MultiByteToWideChar_def)
  with False show ?thesis
    by (simp add: U8String2String_def U8String2WString_def U8CStr2String_stages)
qed

lemma String2U8String_stages:
  "String2U8String dec enc s = WString2U8String enc (String2WString dec s CP_ACP)"
  by (simp add: String2U8String_def String2WString_def WString2U8String_def Let_def)

lemma sample_utf8: "sample_decode CP_UTF8 = utf8_to_wide" "sample_encode CP_UTF8 = wide_to_utf8"
  by (rule ext, simp add: sample_decode_def sample_encode_def)+

lemma sample_acp:
  "sample_decode CP_ACP bytes = Some (map ucast bytes)"
  "sample_encode CP_ACP units =
     (if list_all (\<lambda>u. u < 0x100) units then Some (map ucast units) else None)"
  by (simp_all add: sample_decode_def sample_encode_def CP_ACP_def CP_UTF8_def)



text \<open>Valid UTF-8 within the range of \<open>int\<close>, under an operating system that knows UTF-8.\<close>

lemma U8String2WString_valid:
  assumes "dec CP_UTF8 = utf8_to_wide"
    and "list_all is_scalar_value cps" and "length (utf8_string cps) < 2 ^ 31"
  shows "U8String2WString dec (utf8_string cps) = utf16_string cps"
proof (cases "cps = []")
  case True
  then show ?thesis
    by (simp add: U8String2WString_def utf8_string_def utf16_string_def)
next
  case False
  then have "utf8_string cps \<noteq> []"
    by (simp add: utf8_string_empty)
  moreover have "dec CP_UTF8 (utf8_string cps) = Some (utf16_string cps)"
    by (simp add: assms(1) utf8_to_wide_string [OF assms(2)])
  ultimately show ?thesis
    using assms(3) by (simp add: U8String2WString_def String2WString_small)
qed

lemma WString2U8String_valid:
  assumes "enc CP_UTF8 = wide_to_utf8"
    and "list_all is_scalar_value cps" and "length (utf8_string cps) < 2 ^ 31"
  shows "WString2U8String enc (utf16_string cps) = utf8_string cps"
proof (cases "cps = []")
  case True
  then show ?thesis
    by (simp add: WString2U8String_def utf8_string_def utf16_string_def)
next
  case False
  then have "utf16_string cps \<noteq> []"
    by (simp add: utf16_string_empty)
  moreover have "enc CP_UTF8 (utf16_string cps) = Some (utf8_string cps)"
    by (simp add: assms(1) wide_to_utf8_string [OF assms(2)])
  moreover have "length (utf16_string cps) < 2 ^ 31"
    using length_utf16_string [of cps] assms(3) by simp
  ultimately show ?thesis
    by (simp add: WString2U8String_def WString2String_small)
qed

lemma U8String2WString_wraps:
  assumes "length s = 4294967296"
  shows "U8String2WString dec s = []"
proof -
  from assms have "s \<noteq> []"
    by auto
  with assms show ?thesis
    by (simp add: U8String2WString_def String2WString_units size_to_int_wraps
        MultiByteToWideChar_def)
qed

lemma utf8_string_ascii:
  "cp < 0x80 \<Longrightarrow> utf8_string (replicate n cp) = replicate n (of_nat cp)"
  by (induction n) (simp_all add: utf8_string_def utf8_encode_def)

lemma U8String2String_valid:
  assumes "dec CP_UTF8 = utf8_to_wide"
    and "list_all is_scalar_value cps"
    and "os_representable dec enc CP_ACP (utf16_string cps) a"
    and "length (utf8_string cps) < 2 ^ 31"
  shows "U8String2String dec enc (utf8_string cps) = a"
proof (cases "cps = []")
  case True
  with assms(3) show ?thesis
    by (simp add: U8String2String_def utf8_string_def utf16_string_def os_representable_def)
next
  case False
  then have "utf16_string cps \<noteq> []"
    by (simp add: utf16_string_empty)
  moreover have "length (utf16_string cps) < 2 ^ 31"
    using length_utf16_string [of cps] assms(4) by simp
  moreover have "enc CP_ACP (utf16_string cps) = Some a"
    using assms(3) by (simp add: os_representable_def)
  ultimately have "WString2String enc (utf16_string cps) CP_ACP = a"
    by (rule WString2String_small)
  then show ?thesis
    by (simp add: U8String2String_stages U8String2WString_valid [of dec cps, OF assms(1,2,4)])
qed

lemma String2U8String_valid:
  assumes "enc CP_UTF8 = wide_to_utf8"
    and "list_all is_scalar_value cps"
    and "os_representable dec enc CP_ACP (utf16_string cps) a"
    and "length (utf8_string cps) < 2 ^ 31" and "length a < 2 ^ 31"
  shows "String2U8String dec enc a = utf8_string cps"
proof (cases "cps = []")
  case True
  with assms(3) show ?thesis
    by (simp add: String2U8String_def utf8_string_def utf16_string_def os_representable_def)
next
  case False
  then have "utf16_string cps \<noteq> []"
    by (simp add: utf16_string_empty)
  with assms(3) have "a \<noteq> []" and "dec CP_ACP a = Some (utf16_string cps)"
    by (simp_all add: os_representable_def)
  with assms(5) have "String2WString dec a CP_ACP = utf16_string cps"
    by (intro String2WString_small)
  then show ?thesis
    by (simp add: String2U8String_stages WString2U8String_valid [of enc cps, OF assms(1,2,4)])
qed

lemma U8String2String_wraps:
  assumes "length s = 4294967296"
  shows "U8String2String dec enc s = []"
  by (simp add: U8String2String_stages U8String2WString_wraps [OF assms] WString2String_def)


section \<open>Claims about the conversions\<close>

text \<open>
  C4. The conversion from UTF-8 to the system code page, from a pointer
  (\<open>U8CStr2String\<close>) and from a string (\<open>U8String2String\<close>), is the conversion from
  UTF-8 to wide followed by the conversion from wide to the system code page, and
  \<open>String2U8String\<close> is the conversion from the system code page to wide followed by the
  conversion from wide to UTF-8, for every input and every operating system.
\<close>

theorem two_stage_composition:
  "U8CStr2String dec enc utf8_str len =
     WString2String enc (U8CStr2WString dec utf8_str len) CP_ACP
   \<and> U8String2String dec enc s = WString2String enc (U8String2WString dec s) CP_ACP
   \<and> String2U8String dec enc s = WString2U8String enc (String2WString dec s CP_ACP)"
  by (intro conjI U8CStr2String_stages U8String2String_stages String2U8String_stages)

text \<open>
  An instance with both stages evaluated: the letter \<open>h\<close> and e-acute, three bytes of
  UTF-8, two units of UTF-16, two bytes of ISO 8859-1.
\<close>

theorem two_stage_composition_examples:
  "U8String2String sample_decode sample_encode [0x68, 0xC3, 0xA9] =
     WString2String sample_encode (U8String2WString sample_decode [0x68, 0xC3, 0xA9]) CP_ACP
   \<and> U8String2WString sample_decode [0x68, 0xC3, 0xA9] = [0x68, 0xE9]
   \<and> WString2String sample_encode [0x68, 0xE9] CP_ACP = [0x68, 0xE9]"
proof -
  have 1: "U8String2WString sample_decode [0x68, 0xC3, 0xA9] = [0x68, 0xE9]"
  proof -
    have "utf8_to_wide (utf8_string [0x68, 0xE9]) = Some (utf16_string [0x68, 0xE9])"
      by (rule utf8_to_wide_string) (simp add: is_scalar_value_def)
    then have "sample_decode CP_UTF8 [0x68, 0xC3, 0xA9] = Some [0x68, 0xE9]"
      by (simp add: sample_utf8 utf8_string_def utf8_encode_def utf16_string_def
          utf16_encode_def)
    then show ?thesis
      by (simp add: U8String2WString_def String2WString_small)
  qed
  have 2: "WString2String sample_encode [0x68, 0xE9] CP_ACP = [0x68, 0xE9]"
    by (simp add: WString2String_small sample_acp)
  show ?thesis
    using two_stage_composition [of sample_decode sample_encode None 0 "[0x68, 0xC3, 0xA9]"]
    by (simp add: 1 2)
qed

text \<open>
  C5, as amended. Round trip through UTF-16, under an operating system whose UTF-8 code
  page is UTF-8 (\<open>utf8_to_wide\<close>, \<open>wide_to_utf8\<close>): for every valid UTF-8 string \<open>s\<close>, that
  is the encoding of a list of Unicode scalar values, of fewer than \<open>2^31\<close> bytes,
  \<open>WString2U8String\<close> after \<open>U8String2WString\<close> returns \<open>s\<close> unchanged.
\<close>

theorem utf16_round_trip:
  assumes "dec CP_UTF8 = utf8_to_wide" and "enc CP_UTF8 = wide_to_utf8"
    and "list_all is_scalar_value cps" and "length (utf8_string cps) < 2 ^ 31"
  shows "WString2U8String enc (U8String2WString dec (utf8_string cps)) = utf8_string cps"
  by (simp add: U8String2WString_valid [of dec cps, OF assms(1,3,4)]
      WString2U8String_valid [of enc cps, OF assms(2,3,4)])

text \<open>
  The claim as first stated, for every valid UTF-8 string, fails beyond the range of
  \<open>int\<close>: the header passes \<open>static_cast<int>(str.size())\<close> to the operating system, which
  is 0 for a string of \<open>2^32\<close> letters \<open>a\<close>; the operating system then reports zero units
  and the round trip returns the empty string.
\<close>

theorem utf16_round_trip_counterexample:
  "list_all is_scalar_value (replicate 4294967296 0x61)
   \<and> utf8_string (replicate 4294967296 0x61) = replicate 4294967296 0x61
   \<and> WString2U8String sample_encode
        (U8String2WString sample_decode (replicate 4294967296 0x61)) \<noteq>
       replicate 4294967296 0x61"
proof -
  have 1: "list_all is_scalar_value (replicate 4294967296 0x61)"
    by (simp add: list_all_iff is_scalar_value_def)
  have 2: "utf8_string (replicate 4294967296 0x61) = replicate 4294967296 0x61"
    using utf8_string_ascii [of "0x61" 4294967296] by simp
  have "U8String2WString sample_decode (replicate 4294967296 (0x61 :: byte)) = []"
    by (rule U8String2WString_wraps) simp
  then have 3: "WString2U8String sample_encode
      (U8String2WString sample_decode (replicate 4294967296 0x61)) \<noteq>
      replicate 4294967296 0x61"
    by (simp add: WString2U8String_def)
  from 1 2 3 show ?thesis
    by (intro conjI)
qed

text \<open>An instance: \<open>hello\<close> spelt with e-acute, six bytes of UTF-8.\<close>

theorem utf16_round_trip_example:
  "utf8_string [0x68, 0xE9, 0x6C, 0x6C, 0x6F] = [0x68, 0xC3, 0xA9, 0x6C, 0x6C, 0x6F]
   \<and> WString2U8String sample_encode
        (U8String2WString sample_decode [0x68, 0xC3, 0xA9, 0x6C, 0x6C, 0x6F]) =
       [0x68, 0xC3, 0xA9, 0x6C, 0x6C, 0x6F]"
proof -
  have s: "utf8_string [0x68, 0xE9, 0x6C, 0x6C, 0x6F] = [0x68, 0xC3, 0xA9, 0x6C, 0x6C, 0x6F]"
    by (simp add: utf8_string_def utf8_encode_def)
  have "list_all is_scalar_value [0x68, 0xE9, 0x6C, 0x6C, 0x6F]"
    by (simp add: is_scalar_value_def)
  from utf16_round_trip
    [of sample_decode sample_encode "[0x68, 0xE9, 0x6C, 0x6C, 0x6F]", OF sample_utf8 this]
  show ?thesis
    by (simp add: s)
qed

text \<open>
  C6, as amended. Round trip through the system code page, under an operating system
  whose UTF-8 code page is UTF-8: for every valid UTF-8 string \<open>s\<close> of fewer than \<open>2^31\<close>
  bytes whose text is representable without loss in the system code page, which is to
  say the operating system encodes its wide form to a string \<open>a\<close> of the system code page
  and decodes \<open>a\<close> to that wide form, \<open>a\<close> too of fewer than \<open>2^31\<close> bytes,
  \<open>U8String2String\<close> returns \<open>a\<close> and \<open>String2U8String\<close> after it returns \<open>s\<close> unchanged.
\<close>

theorem system_round_trip:
  assumes "dec CP_UTF8 = utf8_to_wide" and "enc CP_UTF8 = wide_to_utf8"
    and "list_all is_scalar_value cps"
    and "os_representable dec enc CP_ACP (utf16_string cps) a"
    and "length (utf8_string cps) < 2 ^ 31" and "length a < 2 ^ 31"
  shows "U8String2String dec enc (utf8_string cps) = a
    \<and> String2U8String dec enc (U8String2String dec enc (utf8_string cps)) = utf8_string cps"
  by (simp add: U8String2String_valid [of dec cps enc a, OF assms(1,3,4,5)]
      String2U8String_valid [of enc cps dec a, OF assms(2,3,4,5,6)])

text \<open>
  The claim as first stated fails beyond the range of \<open>int\<close>, whatever the system code
  page: for a string of \<open>2^32\<close> letters \<open>a\<close> the size the header passes is 0, and the
  round trip returns the empty string.
\<close>

theorem system_round_trip_counterexample:
  "list_all is_scalar_value (replicate 4294967296 0x61)
   \<and> utf8_string (replicate 4294967296 0x61) = replicate 4294967296 0x61
   \<and> String2U8String sample_decode sample_encode
        (U8String2String sample_decode sample_encode (replicate 4294967296 0x61)) \<noteq>
       replicate 4294967296 0x61"
proof -
  have 1: "list_all is_scalar_value (replicate 4294967296 0x61)"
    by (simp add: list_all_iff is_scalar_value_def)
  have 2: "utf8_string (replicate 4294967296 0x61) = replicate 4294967296 0x61"
    using utf8_string_ascii [of "0x61" 4294967296] by simp
  have "U8String2String sample_decode sample_encode (replicate 4294967296 (0x61 :: byte)) = []"
    by (rule U8String2String_wraps) simp
  then have 3: "String2U8String sample_decode sample_encode
      (U8String2String sample_decode sample_encode (replicate 4294967296 0x61)) \<noteq>
      replicate 4294967296 0x61"
    by (simp add: String2U8String_def)
  from 1 2 3 show ?thesis
    by (intro conjI)
qed

text \<open>
  An instance: \<open>hello\<close> spelt with e-acute, six bytes of UTF-8 and five of ISO 8859-1.
\<close>

theorem system_round_trip_example:
  "utf8_string [0x68, 0xE9, 0x6C, 0x6C, 0x6F] = [0x68, 0xC3, 0xA9, 0x6C, 0x6C, 0x6F]
   \<and> os_representable sample_decode sample_encode CP_ACP
        (utf16_string [0x68, 0xE9, 0x6C, 0x6C, 0x6F]) [0x68, 0xE9, 0x6C, 0x6C, 0x6F]
   \<and> U8String2String sample_decode sample_encode [0x68, 0xC3, 0xA9, 0x6C, 0x6C, 0x6F] =
       [0x68, 0xE9, 0x6C, 0x6C, 0x6F]
   \<and> String2U8String sample_decode sample_encode
        (U8String2String sample_decode sample_encode [0x68, 0xC3, 0xA9, 0x6C, 0x6C, 0x6F]) =
       [0x68, 0xC3, 0xA9, 0x6C, 0x6C, 0x6F]"
proof -
  have s: "utf8_string [0x68, 0xE9, 0x6C, 0x6C, 0x6F] = [0x68, 0xC3, 0xA9, 0x6C, 0x6C, 0x6F]"
    by (simp add: utf8_string_def utf8_encode_def)
  have v: "list_all is_scalar_value [0x68, 0xE9, 0x6C, 0x6C, 0x6F]"
    by (simp add: is_scalar_value_def)
  have r: "os_representable sample_decode sample_encode CP_ACP
      (utf16_string [0x68, 0xE9, 0x6C, 0x6C, 0x6F]) [0x68, 0xE9, 0x6C, 0x6C, 0x6F]"
    by (simp add: os_representable_def sample_acp utf16_string_def utf16_encode_def)
  have l1: "length (utf8_string [0x68, 0xE9, 0x6C, 0x6C, 0x6F]) < 2 ^ 31"
    by (simp add: s)
  have l2: "length [0x68, 0xE9, 0x6C, 0x6C, 0x6F :: byte] < 2 ^ 31"
    by simp
  note trip = system_round_trip
    [of sample_decode sample_encode "[0x68, 0xE9, 0x6C, 0x6C, 0x6F]"
      "[0x68, 0xE9, 0x6C, 0x6C, 0x6F]", OF sample_utf8 v r l1 l2]
  from s r trip [THEN conjunct1] trip [THEN conjunct2] show ?thesis
    by (simp only: simp_thms)
qed





section \<open>Empty results\<close>

text \<open>
  Where the conversions return the empty string: a null pointer, a length of 0, an empty
  \<open>std::string\<close> or \<open>std::wstring\<close>, and zero units reported by the operating system, in
  either stage of the two-stage conversions. \<open>U8StrLength\<close> returns 0 for a null pointer
  and for an empty string.
\<close>

lemma null_pointer_empty:
  "CStr2WString dec None len cp = []"
  "U8CStr2WString dec None len = []"
  "U8CStr2String dec enc None len = []"
  by (simp_all add: CStr2WString_def U8CStr2WString_def U8CStr2String_def)

lemma zero_length_empty:
  "CStr2WString dec str 0 cp = []"
  "U8CStr2WString dec str 0 = []"
  "U8CStr2String dec enc str 0 = []"
  by (simp_all add: CStr2WString_def MultiByteToWideChar_def U8CStr2WString_def
      U8CStr2String_def split: option.splits)

lemma empty_string_empty:
  "String2WString dec [] cp = []"
  "WString2String enc [] cp = []"
  "U8String2WString dec [] = []"
  "WString2U8String enc [] = []"
  "U8String2String dec enc [] = []"
  "String2U8String dec enc [] = []"
  by (simp_all add: String2WString_def WString2String_def U8String2WString_def
      WString2U8String_def U8String2String_def String2U8String_def)

lemma zero_units_empty:
  "MultiByteToWideChar dec cp mem len = [] \<Longrightarrow> CStr2WString dec (Some mem) len cp = []"
  "MultiByteToWideChar dec cp (c_str s) (size_to_int (length s)) = [] \<Longrightarrow>
     String2WString dec s cp = []"
  "WideCharToMultiByte enc cp (c_str w) (size_to_int (length w)) = [] \<Longrightarrow>
     WString2String enc w cp = []"
  "MultiByteToWideChar dec CP_UTF8 mem len = [] \<Longrightarrow> U8CStr2WString dec (Some mem) len = []"
  "MultiByteToWideChar dec CP_UTF8 (c_str s) (size_to_int (length s)) = [] \<Longrightarrow>
     U8String2WString dec s = []"
  "WideCharToMultiByte enc CP_UTF8 (c_str w) (size_to_int (length w)) = [] \<Longrightarrow>
     WString2U8String enc w = []"
  by (simp_all add: CStr2WString_Some String2WString_units WString2String_units
      U8CStr2WString_def U8String2WString_def WString2U8String_def)

lemma zero_units_two_stage:
  "MultiByteToWideChar dec CP_UTF8 mem len = [] \<Longrightarrow> U8CStr2String dec enc (Some mem) len = []"
  "WideCharToMultiByte enc CP_ACP (c_str (U8CStr2WString dec str len))
      (size_to_int (length (U8CStr2WString dec str len))) = [] \<Longrightarrow>
     U8CStr2String dec enc str len = []"
  "MultiByteToWideChar dec CP_UTF8 (c_str s) (size_to_int (length s)) = [] \<Longrightarrow>
     U8String2String dec enc s = []"
  "WideCharToMultiByte enc CP_ACP (c_str (U8String2WString dec s))
      (size_to_int (length (U8String2WString dec s))) = [] \<Longrightarrow>
     U8String2String dec enc s = []"
  "MultiByteToWideChar dec CP_ACP (c_str s) (size_to_int (length s)) = [] \<Longrightarrow>
     String2U8String dec enc s = []"
  "WideCharToMultiByte enc CP_UTF8 (c_str (String2WString dec s CP_ACP))
      (size_to_int (length (String2WString dec s CP_ACP))) = [] \<Longrightarrow>
     String2U8String dec enc s = []"
  by (simp_all add: U8CStr2String_stages U8String2String_stages String2U8String_stages
      zero_units_empty WString2String_units empty_string_empty WString2U8String_def)

lemma U8StrLength_empty:
  "U8StrLength None = Inr 0"
  "U8StrLength (Some (0 # rest)) = Inr 0"
  "U8StrLength_string [] = Inr 0"
  using U8StrLength_loop_terminator [of "[]" rest 0]
  by (simp_all add: U8StrLength_def U8StrLength_string_def)

text \<open>
  C3. The claim does not hold of the code for the empty terminated string. The functions
  that take a pointer test the pointer, not the first byte: called with the default
  length \<open>-1\<close> on \<open>""\<close>, \<open>CStr2WString\<close>, \<open>U8CStr2WString\<close> and \<open>U8CStr2String\<close> pass
  the sentinel to the operating system and return its whole output, a string of one null
  unit and not the empty string. The same input gives the empty string with the length
  0 and as an empty \<open>std::string\<close>, and \<open>WideToUTF8\<close> of \<open>utf8_args.h\<close>, which calls the
  operating system with the same sentinel, leaves the terminator out of its result.
\<close>

theorem CStr2WString_empty_terminated_string:
  "CStr2WString sample_decode (Some (c_str [])) (- 1) CP_ACP = [0]
   \<and> U8CStr2WString sample_decode (Some (c_str [])) (- 1) = [0]
   \<and> U8CStr2String sample_decode sample_encode (Some (c_str [])) (- 1) = [0]
   \<and> CStr2WString sample_decode (Some (c_str [])) 0 CP_ACP = []
   \<and> String2WString sample_decode [] CP_ACP = []
   \<and> WideToUTF8 sample_encode (Some (c_str [])) = []"
proof -
  have 1: "CStr2WString sample_decode (Some (c_str [])) (- 1) CP_ACP = [0]"
    by (simp add: CStr2WString_Some MultiByteToWideChar_def c_str_def before_terminator_def
        sample_acp)
  have 2: "U8CStr2WString sample_decode (Some (c_str [])) (- 1) = [0]"
    by (simp add: U8CStr2WString_def CStr2WString_Some MultiByteToWideChar_def c_str_def
        before_terminator_def sample_utf8 utf8_to_wide_def utf16_string_def)
  have 3: "U8CStr2String sample_decode sample_encode (Some (c_str [])) (- 1) = [0]"
    by (simp add: U8CStr2String_stages 2 WString2String_small sample_acp)
  have 4: "WideToUTF8 sample_encode (Some (c_str [])) = []"
    by (simp add: WideToUTF8_def WideCharToMultiByte_def c_str_def before_terminator_def
        sample_utf8 wide_to_utf8_def utf8_string_def)
  from 1 2 3 4 show ?thesis
    by (simp add: zero_length_empty empty_string_empty)
qed


section \<open>The argument decoder\<close>

lemma utf8_args_loop_map:
  assumes "0 \<le> i" and "argc = int (length argv_w)"
  shows "utf8_args_loop enc argv_w argc i utf8_args =
    utf8_args @ map (\<lambda>w. WideToUTF8 enc (Some w)) (drop (nat i) argv_w)"
  using assms
proof (induction enc argv_w argc i utf8_args rule: utf8_args_loop.induct)
  case (1 enc argv_w argc i utf8_args)
  show ?case
  proof (cases "i < argc")
    case True
    with 1 have inb: "nat i < length argv_w"
      by simp
    have next_i: "nat (i + 1) = Suc (nat i)"
      using 1(2) by simp
    have "utf8_args_loop enc argv_w argc i utf8_args =
        utf8_args_loop enc argv_w argc (i + 1)
          (utf8_args @ [WideToUTF8 enc (Some (argv_w ! nat i))])"
      using True by (subst utf8_args_loop.simps) simp
    also have "\<dots> = (utf8_args @ [WideToUTF8 enc (Some (argv_w ! nat i))]) @
        map (\<lambda>w. WideToUTF8 enc (Some w)) (drop (nat (i + 1)) argv_w)"
      using 1 True by simp
    also have "\<dots> = utf8_args @
        map (\<lambda>w. WideToUTF8 enc (Some w)) (argv_w ! nat i # drop (Suc (nat i)) argv_w)"
      by (simp add: next_i)
    finally show ?thesis
      by (simp add: Cons_nth_drop_Suc [OF inb])
  next
    case False
    with 1 have "length argv_w \<le> nat i"
      by simp
    with False show ?thesis
      by (subst utf8_args_loop.simps) simp
  qed
qed

lemma GetUTF8CommandLineArgs_Some:
  "GetUTF8CommandLineArgs enc (Some argv_w) err =
     (err, map (\<lambda>w. WideToUTF8 enc (Some w)) argv_w)"
  by (simp add: GetUTF8CommandLineArgs_def utf8_args_loop_map)

lemma GetUTF8CommandLineArgs_None:
  "GetUTF8CommandLineArgs enc None err = (err @ [parse_failure_message], [])"
  by (simp add: GetUTF8CommandLineArgs_def)

lemma string_of_cstr_c_str:
  "list_all (\<lambda>b. b \<noteq> 0) s \<Longrightarrow> string_of_cstr (c_str s) = s"
  by (induction s) (simp_all add: string_of_cstr_def c_str_def)

lemma WideToUTF8_strips_terminator:
  assumes "list_all (\<lambda>x. x \<noteq> 0) w" and "enc CP_UTF8 w = Some u"
  shows "WideToUTF8 enc (Some (c_str w)) = u"
proof -
  have "before_terminator (c_str w) = w"
    using before_terminator_append [OF assms(1), of "[]"] by (simp add: c_str_def)
  then have "WideCharToMultiByte enc CP_UTF8 (c_str w) (- 1) = u @ [0]"
    by (simp add: WideCharToMultiByte_def assms(2))
  then show ?thesis
    by (simp add: WideToUTF8_def Let_def)
qed

lemma GetUTF8CommandLineArgs_argv_all:
  "GetUTF8CommandLineArgs_argv (int (length argv)) argv = map string_of_cstr argv"
  by (simp add: GetUTF8CommandLineArgs_argv_def)

lemma GetUTF8CommandLineArgs_argv_as_is:
  assumes "list_all (list_all (\<lambda>b. b \<noteq> 0)) args"
  shows "GetUTF8CommandLineArgs_argv (int (length args)) (map c_str args) = args"
proof -
  have "map string_of_cstr (map c_str args) = args"
    using assms by (induction args) (simp_all add: string_of_cstr_c_str)
  then show ?thesis
    using GetUTF8CommandLineArgs_argv_all [of "map c_str args"] by simp
qed


section \<open>Claims about the argument decoder\<close>

text \<open>
  C7. On Windows the result has one entry per argument of the parsed command line, in the
  same order and of the same number, each \<open>WideToUTF8\<close> of that argument: the operating
  system's UTF-8 form without its terminator; when the command line cannot be parsed the
  result is the empty list. On the other platforms, called with the argument count, the
  result holds the bytes of each \<open>argv\<close> entry before its terminator, unchanged and in
  order.
\<close>

theorem args_order_and_count:
  "snd (GetUTF8CommandLineArgs enc (Some argv_w) err) =
     map (\<lambda>w. WideToUTF8 enc (Some w)) argv_w
   \<and> length (snd (GetUTF8CommandLineArgs enc (Some argv_w) err)) = length argv_w
   \<and> snd (GetUTF8CommandLineArgs enc None err) = []
   \<and> (list_all (\<lambda>x. x \<noteq> 0) w \<and> enc CP_UTF8 w = Some u \<longrightarrow>
        WideToUTF8 enc (Some (c_str w)) = u)
   \<and> GetUTF8CommandLineArgs_argv (int (length argv)) argv = map string_of_cstr argv
   \<and> (list_all (list_all (\<lambda>b. b \<noteq> 0)) args \<longrightarrow>
        GetUTF8CommandLineArgs_argv (int (length args)) (map c_str args) = args)"
  by (simp add: GetUTF8CommandLineArgs_Some GetUTF8CommandLineArgs_None
      WideToUTF8_strips_terminator GetUTF8CommandLineArgs_argv_all
      GetUTF8CommandLineArgs_argv_as_is)

text \<open>
  Instances: the argument list of the spec (\<open>prog\<close>, \<open>hello\<close> spelt with e-acute in
  UTF-8, \<open>--flag=1\<close>) on the \<open>argv\<close> path, and the arguments \<open>prog\<close> and \<open>-x\<close> on the
  Windows path.
\<close>

theorem args_order_and_count_examples:
  "GetUTF8CommandLineArgs_argv 3
     [[0x70, 0x72, 0x6F, 0x67, 0], [0x68, 0xC3, 0xA9, 0x6C, 0x6C, 0x6F, 0],
      [0x2D, 0x2D, 0x66, 0x6C, 0x61, 0x67, 0x3D, 0x31, 0]] =
     [[0x70, 0x72, 0x6F, 0x67], [0x68, 0xC3, 0xA9, 0x6C, 0x6C, 0x6F],
      [0x2D, 0x2D, 0x66, 0x6C, 0x61, 0x67, 0x3D, 0x31]]
   \<and> snd (GetUTF8CommandLineArgs sample_encode
        (Some [[0x70, 0x72, 0x6F, 0x67, 0], [0x2D, 0x78, 0]]) []) =
       [[0x70, 0x72, 0x6F, 0x67], [0x2D, 0x78]]"
  using args_order_and_count [where args =
      "[[0x70, 0x72, 0x6F, 0x67], [0x68, 0xC3, 0xA9, 0x6C, 0x6C, 0x6F],
        [0x2D, 0x2D, 0x66, 0x6C, 0x61, 0x67, 0x3D, 0x31]]"
      and enc = sample_encode and argv_w = "[[0x70, 0x72, 0x6F, 0x67, 0], [0x2D, 0x78, 0]]"
      and err = "[]"]
  by (simp add: c_str_def WideToUTF8_def WideCharToMultiByte_def before_terminator_def
      sample_utf8 wide_to_utf8_def utf8_string_def utf8_encode_def Let_def)

text \<open>
  C8. On Windows, when \<open>CommandLineToArgvW\<close> returns no array, the function appends one
  message to the error stream, a single line, and returns the empty list; when it
  returns an array the error stream is left as it was. So the error stream changes
  exactly when the command line cannot be parsed. The function is total: it returns in
  both cases.
\<close>

theorem reparse_failure_diagnostic:
  "GetUTF8CommandLineArgs enc None err = (err @ [parse_failure_message], [])
   \<and> fst (GetUTF8CommandLineArgs enc (Some argv_w) err) = err
   \<and> ((fst (GetUTF8CommandLineArgs enc parsed err) \<noteq> err) = (parsed = None))
   \<and> count_list parse_failure_message (CHR 0x0A) = 1
   \<and> last parse_failure_message = CHR 0x0A"
proof (intro conjI)
  show "(fst (GetUTF8CommandLineArgs enc parsed err) \<noteq> err) = (parsed = None)"
    by (cases parsed) (simp_all add: GetUTF8CommandLineArgs_Some GetUTF8CommandLineArgs_None)
  show "count_list parse_failure_message (CHR 0x0A) = 1"
    by (simp add: parse_failure_message_def)
qed (simp_all add: GetUTF8CommandLineArgs_Some GetUTF8CommandLineArgs_None
    parse_failure_message_def)

text \<open>An instance of each case, starting from an empty error stream.\<close>

theorem reparse_failure_diagnostic_example:
  "GetUTF8CommandLineArgs sample_encode None [] =
     ([''[utf8_args] Failed to parse command line.'' @ [CHR 0x0A]], [])
   \<and> fst (GetUTF8CommandLineArgs sample_encode (Some [[0x70, 0]]) []) = []"
  using reparse_failure_diagnostic [of sample_encode "[]" "[[0x70, 0]]" None]
  by (simp add: parse_failure_message_def)

end
